theory Spec2Isabelle
  imports Main
begin

section \<open>The browser tab of splash/browser\_tab.py\<close>

text \<open>
  A shallow embedding of the class \<open>BrowserTab\<close> and of its logger
  \<open>_BrowserTabLogger\<close>. The instance attributes are the fields of the record
  \<open>tab\<close>; every method takes the tab and returns it updated. A method that can
  raise returns \<open>Inl (e, s)\<close>, the exception together with the tab as the raise
  leaves it, so that what was mutated before the raise stays visible.

  The collaborators (Qt, Twisted, the HAR log) are not part of the file. Every call
  into one of them, every invocation of a callable handed in by the caller, and every
  update of the two timer registries is appended to the field \<open>trace\<close>, in program
  order. What the collaborators answer is an argument of the handler that asks.

  Python objects that can be shared and mutated (the dictionaries and lists of the HAR
  data) live in a heap, a map from addresses to objects; a value refers to them by
  address, so that two history entries can hold one and the same \<open>request\<close>.
\<close>

subsection \<open>Values\<close>

type_synonym timer = nat
  \<comment> \<open>the identity of a \<open>QTimer\<close> object\<close>

type_synonym addr = nat
  \<comment> \<open>the identity of a dictionary or a list\<close>

text \<open>
  A callable supplied by the caller. Its body is not part of the tab; what the tab sees
  of a call is that it returns or that it raises.
\<close>

datatype callback = Returns nat | Raises nat

fun raises :: "callback \<Rightarrow> bool" where
  "raises (Returns n) = False"
| "raises (Raises n) = True"

text \<open>The statement that invokes a callable: in which handler, and for which timer.\<close>

datatype site = OnLoadFinished | OnTimeout timer | OnRedirect timer

datatype error =
    NotImplementedError
  | KeyError
  | TypeError
  | UnicodeDecodeError
  | AlreadyCalledError
  | NoCurrentExceptionError
  | CallbackError

text \<open>
  The argument \<open>onredirect\<close> of \<open>wait\<close>: \<open>None\<close>, a boolean or a callable.
  \<open>truthy\<close> is the test \<open>if onredirect\<close>; \<open>callable(errback)\<close> holds of
  \<open>OCallable\<close> alone.
\<close>

datatype onredirect = ONone | OBool bool | OCallable callback

fun truthy :: "onredirect \<Rightarrow> bool" where
  "truthy ONone = False"
| "truthy (OBool b) = b"
| "truthy (OCallable c) = True"

text \<open>
  HAR data. A value is \<open>None\<close>, a boolean, a number, a string, or the address of a
  dictionary or a list in the heap. A dictionary is a list of items.
\<close>

datatype pyval =
    PNone
  | PBool bool
  | PInt int
  | PStr string
  | PRef addr

datatype pyobj =
    PDict "(string \<times> pyval) list"
  | PList "pyval list"

type_synonym heap = "addr \<Rightarrow> pyobj"

record request =
  req_url :: string
  raw_headers :: "(string \<times> string) list"
  originating_object :: bool

text \<open>What \<open>self._reply\<close> holds when its \<open>finished\<close> signal arrives.\<close>

record reply =
  content_type :: string
  reply_data :: string
  reply_error :: nat
  error_string :: string

record qtimer =
  interval :: nat
  is_active :: bool
  timeout_slot :: callback

datatype effect =
    LogMsg string
  | StoreTiming string
  | NetworkGet request
  | FrameLoad request nat "string option"
  | SetContent string string string
  | ReplyClose
  | ReplyDeleteLater
  | Called site callback
  | DeferredCallback string
  | DeferredErrback "string option"
  | TimerStart timer nat
  | TimerStop timer
  | ActiveAdd timer
  | ActiveRemove timer
  | CancelSet timer onredirect
  | CancelPop timer
  | PageAction string
  | ViewStop
  | ViewClose
  | DeleteLater string

record tab =
  deferred_called :: bool
  deferred_value :: "(string + string) option"
  verbosity :: int
  uid :: string
  closing :: bool
  default_headers :: "(string \<times> string) list option"
  active_timers :: "timer set"
  cancel_on_redirect_timers :: "(timer \<times> onredirect) list"
  tab_history :: "pyval list"
  heap :: heap
  error_info :: "string option"
  custom_user_agent :: "string option"
  load_finished_slots :: "(callback \<times> callback) list"
  reply_finished_slots :: "(callback \<times> callback \<times> string \<times> string) list"
  qtimers :: "timer \<Rightarrow> qtimer option"
  next_timer :: nat
  trace :: "effect list"

text \<open>
  Three things the file takes from elsewhere: the \<open>utf8\<close> codec (\<open>None\<close> where
  \<open>decode\<close> raises), the table \<open>OPERATION_QT_CONSTANTS\<close> of \<open>splash.qtutils\<close>
  and \<open>without_private\<close> of \<open>splash.har.utils\<close>, which is given the heap and a
  value and returns a value and the heap as it leaves it.
\<close>

record env =
  decode_utf8 :: "string \<Rightarrow> string option"
  operation_qt_constants :: "string \<Rightarrow> nat option"
  without_private :: "heap \<Rightarrow> pyval \<Rightarrow> pyval \<times> heap"

type_synonym outcome = "(error \<times> tab) + tab"

fun state_of :: "outcome \<Rightarrow> tab" where
  "state_of (Inl (e, s)) = s"
| "state_of (Inr s) = s"

definition emit :: "effect \<Rightarrow> tab \<Rightarrow> tab" where
  "emit e s = s\<lparr>trace := trace s @ [e]\<rparr>"

definition new_effects :: "tab \<Rightarrow> tab \<Rightarrow> effect list" where
  "new_effects s s' = drop (length (trace s)) (trace s')"

fun is_log :: "effect \<Rightarrow> bool" where
  "is_log (LogMsg m) = True"
| "is_log e = False"

subsection \<open>Dictionaries\<close>

definition dict_keys :: "('k \<times> 'v) list \<Rightarrow> 'k set" where
  "dict_keys d = fst ` set d"

definition dict_pop :: "'k \<Rightarrow> ('k \<times> 'v) list \<Rightarrow> ('k \<times> 'v) list" where
  "dict_pop k d = filter (\<lambda>kv. fst kv \<noteq> k) d"

definition dict_set :: "'k \<Rightarrow> 'v \<Rightarrow> ('k \<times> 'v) list \<Rightarrow> ('k \<times> 'v) list" where
  "dict_set k v d =
     (if k \<in> dict_keys d then map (\<lambda>kv. if fst kv = k then (k, v) else kv) d
      else d @ [(k, v)])"

subsection \<open>Text\<close>

fun str_nat :: "nat \<Rightarrow> string" where
  "str_nat n =
     (if n < 10 then [char_of (48 + n)]
      else str_nat (n div 10) @ [char_of (48 + n mod 10)])"

declare str_nat.simps [simp del]

definition lower_char :: "char \<Rightarrow> char" where
  "lower_char c =
     (if 65 \<le> (of_char c :: nat) \<and> (of_char c :: nat) \<le> 90
      then char_of ((of_char c :: nat) + 32) else c)"

definition lower :: "string \<Rightarrow> string" where
  "lower s = map lower_char s"

subsection \<open>The logger\<close>

text \<open>
  \<open>_BrowserTabLogger.log\<close>: a message with a \<open>min_level\<close> above the verbosity is
  dropped; the others go to \<open>log.msg\<close> behind the uid. The messages of the tab are
  byte strings, so the \<open>unicode-escape\<close> branch does not apply to them.
\<close>

definition logger_log :: "string \<Rightarrow> nat option \<Rightarrow> tab \<Rightarrow> tab" where
  "logger_log message min_level s =
     (case min_level of
        Some l \<Rightarrow>
          if verbosity s < int l then s
          else emit (LogMsg (''['' @ uid s @ ''] '' @ message)) s
      | None \<Rightarrow> emit (LogMsg (''['' @ uid s @ ''] '' @ message)) s)"

subsection \<open>Creation, the result channel\<close>

definition init_tab :: "int \<Rightarrow> string \<Rightarrow> tab" where
  "init_tab v u =
     \<lparr>deferred_called = False, deferred_value = None, verbosity = v, uid = u,
      closing = False, default_headers = None, active_timers = {},
      cancel_on_redirect_timers = [], tab_history = [], heap = (\<lambda>a. PDict []),
      error_info = None,
      custom_user_agent = None, load_finished_slots = [], reply_finished_slots = [],
      qtimers = (\<lambda>t. None), next_timer = 0, trace = []\<rparr>"

definition result_already_returned :: "tab \<Rightarrow> bool" where
  "result_already_returned s = deferred_called s"

text \<open>
  Twisted's \<open>Deferred\<close>: the call is recorded, then a deferred that was already
  called raises \<open>AlreadyCalledError\<close> and keeps its first value. \<open>errback(None)\<close>
  first builds a \<open>Failure\<close> from the exception that is being handled; the owner
  calls outside of an \<open>except\<close> block, where this raises
  \<open>NoCurrentExceptionError\<close> and the deferred stays as it was.
\<close>

definition deferred_callback :: "string \<Rightarrow> tab \<Rightarrow> outcome" where
  "deferred_callback r s =
     (let s1 = emit (DeferredCallback r) s in
      if deferred_called s1 then Inl (AlreadyCalledError, s1)
      else Inr (s1\<lparr>deferred_called := True, deferred_value := Some (Inr r)\<rparr>))"

definition deferred_errback :: "string option \<Rightarrow> tab \<Rightarrow> outcome" where
  "deferred_errback e s =
     (let s1 = emit (DeferredErrback e) s in
      case e of
        None \<Rightarrow> Inl (NoCurrentExceptionError, s1)
      | Some x \<Rightarrow>
          if deferred_called s1 then Inl (AlreadyCalledError, s1)
          else Inr (s1\<lparr>deferred_called := True, deferred_value := Some (Inl x)\<rparr>))"

definition return_result :: "string \<Rightarrow> tab \<Rightarrow> outcome" where
  "return_result r s =
     (let s1 = (if result_already_returned s
                then logger_log ''error: result is already returned'' (Some 1) s
                else s)
      in deferred_callback r s1)"

definition return_error :: "string option \<Rightarrow> tab \<Rightarrow> outcome" where
  "return_error e s =
     (let s1 = (if result_already_returned s
                then logger_log ''error: result is already returned'' (Some 1) s
                else s)
      in deferred_errback e s1)"

definition set_default_headers :: "(string \<times> string) list option \<Rightarrow> tab \<Rightarrow> tab" where
  "set_default_headers headers s = s\<lparr>default_headers := headers\<rparr>"

subsection \<open>Navigation\<close>

definition store_har_timing :: "string \<Rightarrow> tab \<Rightarrow> tab" where
  "store_har_timing name s = emit (StoreTiming name) s"

fun set_request_headers ::
  "(string \<times> string) list \<Rightarrow> request \<Rightarrow> tab \<Rightarrow> request \<times> tab" where
  "set_request_headers [] rq s = (rq, s)"
| "set_request_headers ((name, v) # hs) rq s =
     set_request_headers hs
       (rq\<lparr>raw_headers := raw_headers rq @ [(name, v)]\<rparr>)
       (if lower name = ''user-agent'' then s\<lparr>custom_user_agent := Some v\<rparr> else s)"

definition create_request :: "env \<Rightarrow> string \<Rightarrow> tab \<Rightarrow> (error \<times> tab) + (request \<times> tab)" where
  "create_request ev url s =
     (case decode_utf8 ev url of
        None \<Rightarrow> Inl (UnicodeDecodeError, s)
      | Some u \<Rightarrow>
          Inr (set_request_headers
                 (case default_headers s of None \<Rightarrow> [] | Some hs \<Rightarrow> hs)
                 \<lparr>req_url = u, raw_headers = [], originating_object = False\<rparr> s))"

definition load_url_to_mainframe ::
  "env \<Rightarrow> string \<Rightarrow> string \<Rightarrow> string option \<Rightarrow> tab \<Rightarrow> outcome" where
  "load_url_to_mainframe ev url http_method body s =
     (case create_request ev url s of
        Inl x \<Rightarrow> Inl x
      | Inr (rq, s1) \<Rightarrow>
          (case operation_qt_constants ev http_method of
             None \<Rightarrow> Inl (KeyError, s1)
           | Some meth \<Rightarrow> Inr (emit (FrameLoad rq meth body) s1)))"

definition str_set :: "string option \<Rightarrow> bool" where
  "str_set b = (case b of None \<Rightarrow> False | Some x \<Rightarrow> x \<noteq> [])"

definition go ::
  "env \<Rightarrow> string \<Rightarrow> callback \<Rightarrow> callback \<Rightarrow> string option \<Rightarrow> string \<Rightarrow> string option
     \<Rightarrow> tab \<Rightarrow> outcome" where
  "go ev url cb errback baseurl http_method body s =
     (let s1 = store_har_timing ''_onStarted'' s in
      if str_set baseurl then
        if http_method \<noteq> ''GET'' then Inl (NotImplementedError, s1)
        else
          (case create_request ev url s1 of
             Inl x \<Rightarrow> Inl x
           | Inr (rq, s2) \<Rightarrow>
               let s3 = emit (NetworkGet (rq\<lparr>originating_object := True\<rparr>)) s2
               in Inr (s3\<lparr>reply_finished_slots :=
                            reply_finished_slots s3 @
                              [(cb, errback, case baseurl of None \<Rightarrow> [] | Some b \<Rightarrow> b, url)]\<rparr>))
      else
        load_url_to_mainframe ev url http_method body
          (s1\<lparr>load_finished_slots := load_finished_slots s1 @ [(cb, errback)]\<rparr>))"

definition close :: "tab \<Rightarrow> tab" where
  "close s =
     (let s1 = s\<lparr>closing := True\<rparr>;
          s2 = emit (PageAction ''StopScheduledPageRefresh'') s1;
          s3 = emit ViewStop s2;
          s4 = emit ViewClose s3;
          s5 = emit (DeleteLater ''web_page'') s4
      in emit (DeleteLater ''web_view'') s5)"

definition on_baseurl_request_finished ::
  "env \<Rightarrow> callback \<Rightarrow> callback \<Rightarrow> string \<Rightarrow> string \<Rightarrow> reply \<Rightarrow> tab \<Rightarrow> outcome" where
  "on_baseurl_request_finished ev cb errback baseurl url rep s =
     (let s1 = logger_log ''baseurl_request_finished'' (Some 2) s;
          s2 = s1\<lparr>load_finished_slots := load_finished_slots s1 @ [(cb, errback)]\<rparr>
      in case decode_utf8 ev baseurl of
           None \<Rightarrow> Inl (UnicodeDecodeError, s2)
         | Some b \<Rightarrow>
             let s3 = emit (SetContent (reply_data rep) (content_type rep) b) s2;
                 s4 = (if reply_error rep \<noteq> 0
                       then logger_log (''Error loading '' @ url @ '': '' @ error_string rep)
                              (Some 1) s3
                       else s3);
                 s5 = emit ReplyClose s4
             in Inr (emit ReplyDeleteLater s5))"

text \<open>
  The call of a callable of the caller: the call is recorded, and an exception that the
  callable raises leaves the handler at that point.
\<close>

definition call :: "site \<Rightarrow> callback \<Rightarrow> tab \<Rightarrow> outcome" where
  "call st c s =
     (let s1 = emit (Called st c) s in
      if raises c then Inl (CallbackError, s1) else Inr s1)"

definition on_goto_load_finished :: "bool \<Rightarrow> callback \<Rightarrow> callback \<Rightarrow> tab \<Rightarrow> outcome" where
  "on_goto_load_finished ok cb errback s =
     (if closing s then
        Inr (logger_log ''loadFinished is ignored because BrowserTab is closing'' (Some 2) s)
      else
        let page_ok = (ok \<and> error_info s = None);
            maybe_redirect = (\<not> ok \<and> error_info s = None);
            error_loading = (ok \<and> error_info s \<noteq> None)
        in if maybe_redirect then
             Inr (logger_log ''Redirect or other non-fatal error detected'' (Some 2) s)
           else if page_ok then
             call OnLoadFinished cb (logger_log ''loadFinished: ok'' (Some 2) s)
           else if error_loading then
             call OnLoadFinished errback
               (logger_log (''loadFinished: '' @ (case error_info s of None \<Rightarrow> ''None'' | Some i \<Rightarrow> i))
                  (Some 1) s)
           else
             call OnLoadFinished errback
               (logger_log ''loadFinished: unknown error'' (Some 1) s))"

subsection \<open>Timers\<close>

definition wait :: "nat \<Rightarrow> callback \<Rightarrow> onredirect \<Rightarrow> tab \<Rightarrow> tab" where
  "wait time_ms cb onred s =
     (let t = next_timer s;
          s1 = s\<lparr>next_timer := Suc t,
                 qtimers := (qtimers s)
                   (t \<mapsto> \<lparr>interval = 0, is_active = False, timeout_slot = cb\<rparr>)\<rparr>;
          s2 = logger_log (''waiting '' @ str_nat time_ms @ ''ms; timer '' @ str_nat t) (Some 2) s1;
          s3 = emit (TimerStart t time_ms)
                 (s2\<lparr>qtimers := (qtimers s2)
                   (t \<mapsto> \<lparr>interval = time_ms, is_active = True, timeout_slot = cb\<rparr>)\<rparr>);
          s4 = emit (ActiveAdd t) (s3\<lparr>active_timers := insert t (active_timers s3)\<rparr>)
      in if truthy onred then
           emit (CancelSet t onred)
             (s4\<lparr>cancel_on_redirect_timers := dict_set t onred (cancel_on_redirect_timers s4)\<rparr>)
         else s4)"

definition on_wait_timeout :: "timer \<Rightarrow> callback \<Rightarrow> tab \<Rightarrow> outcome" where
  "on_wait_timeout t cb s =
     (let s1 = logger_log (''wait timeout for '' @ str_nat t) (Some 2) s in
      if t \<notin> active_timers s1 then Inl (KeyError, s1)
      else
        let s2 = emit (ActiveRemove t) (s1\<lparr>active_timers := active_timers s1 - {t}\<rparr>);
            s3 = emit (CancelPop t)
                   (s2\<lparr>cancel_on_redirect_timers := dict_pop t (cancel_on_redirect_timers s2)\<rparr>)
        in call (OnTimeout t) cb s3)"

definition timer_stop :: "timer \<Rightarrow> tab \<Rightarrow> tab" where
  "timer_stop t s =
     emit (TimerStop t)
       (s\<lparr>qtimers := (\<lambda>x. if x = t then map_option (\<lambda>q. q\<lparr>is_active := False\<rparr>) (qtimers s x)
                            else qtimers s x)\<rparr>)"

definition cancel_timer :: "timer \<Rightarrow> onredirect \<Rightarrow> tab \<Rightarrow> outcome" where
  "cancel_timer t errback s =
     (let s1 = logger_log (''cancelling timer '' @ str_nat t) (Some 2) s;
          s2 = emit (CancelPop t)
                 (s1\<lparr>cancel_on_redirect_timers := dict_pop t (cancel_on_redirect_timers s1)\<rparr>)
      in if t \<notin> active_timers s2 then Inl (KeyError, s2)
         else
           let s3 = emit (ActiveRemove t) (s2\<lparr>active_timers := active_timers s2 - {t}\<rparr>);
               s4 = timer_stop t s3
           in case errback of OCallable c \<Rightarrow> call (OnRedirect t) c s4 | _ \<Rightarrow> Inr s4)"

text \<open>
  The loop of \<open>_on_url_changed\<close> over the items that the dictionary held on entry, in
  the order in which the dictionary yields them. An exception ends the loop.
\<close>

fun cancel_all :: "(timer \<times> onredirect) list \<Rightarrow> tab \<Rightarrow> outcome" where
  "cancel_all [] s = Inr s"
| "cancel_all ((t, p) # items) s =
     (case cancel_timer t p s of
        Inl x \<Rightarrow> Inl x
      | Inr s1 \<Rightarrow> cancel_all items s1)"

text \<open>
  \<open>cause_ev\<close> is what \<open>har_log._prev_entry(url, -1)\<close> answers: \<open>None\<close>, or an
  event whose \<open>data\<close> is the value given here.
\<close>

definition on_url_changed :: "env \<Rightarrow> string \<Rightarrow> pyval option \<Rightarrow> tab \<Rightarrow> outcome" where
  "on_url_changed ev url cause_ev s =
     (let s1 = (case cause_ev of
                  None \<Rightarrow> s
                | Some d \<Rightarrow>
                    s\<lparr>tab_history := tab_history s @ [fst (without_private ev (heap s) d)],
                      heap := snd (without_private ev (heap s) d)\<rparr>)
      in cancel_all (cancel_on_redirect_timers s1) s1)"

text \<open>
  Qt's side of a timer: a single-shot timer that is running stops and runs its slot,
  a timer that was stopped emits nothing.
\<close>

definition timer_is_active :: "tab \<Rightarrow> timer \<Rightarrow> bool" where
  "timer_is_active s t = (case qtimers s t of None \<Rightarrow> False | Some q \<Rightarrow> is_active q)"

definition qt_timeout :: "timer \<Rightarrow> tab \<Rightarrow> outcome" where
  "qt_timeout t s =
     (case qtimers s t of
        None \<Rightarrow> Inr s
      | Some q \<Rightarrow>
          if is_active q
          then on_wait_timeout t (timeout_slot q)
                 (s\<lparr>qtimers := (qtimers s)(t \<mapsto> q\<lparr>is_active := False\<rparr>)\<rparr>)
          else Inr s)"

subsection \<open>History\<close>

fun dict_get :: "string \<Rightarrow> (string \<times> pyval) list \<Rightarrow> pyval option" where
  "dict_get k [] = None"
| "dict_get k ((k', v) # d) = (if k' = k then Some v else dict_get k d)"

text \<open>
  \<open>del entry['request']['queryString']\<close>, for an entry that is not \<open>None\<close>: the
  subscription of the entry, then the deletion in the object that it yields. Only a
  dictionary can be subscripted by a string, and only in a dictionary can a string be
  deleted; a key that is missing raises \<open>KeyError\<close>.
\<close>

definition del_query_string :: "heap \<Rightarrow> pyval \<Rightarrow> error + heap" where
  "del_query_string h entry =
     (case entry of
        PRef a \<Rightarrow>
          (case h a of
             PDict d \<Rightarrow>
               (case dict_get ''request'' d of
                  None \<Rightarrow> Inl KeyError
                | Some (PRef b) \<Rightarrow>
                    (case h b of
                       PDict rq \<Rightarrow>
                         (case dict_get ''queryString'' rq of
                            None \<Rightarrow> Inl KeyError
                          | Some q \<Rightarrow> Inr (h(b := PDict (dict_pop ''queryString'' rq))))
                     | PList xs \<Rightarrow> Inl TypeError)
                | Some other \<Rightarrow> Inl TypeError)
           | PList xs \<Rightarrow> Inl TypeError)
      | other \<Rightarrow> Inl TypeError)"

fun strip_entries :: "heap \<Rightarrow> pyval list \<Rightarrow> error + heap" where
  "strip_entries h [] = Inr h"
| "strip_entries h (entry # hist) =
     (case (if entry \<noteq> PNone then del_query_string h entry else Inr h) of
        Inl e \<Rightarrow> Inl e
      | Inr h1 \<Rightarrow> strip_entries h1 hist)"

text \<open>
  \<open>copy.deepcopy\<close> builds, at new addresses, a graph of the same shape as the one the
  history list reaches: an object that is reached twice is copied once, so what was
  shared stays shared. The copy is taken here as the heap at the moment of the call, at
  the same addresses; the loop works in the copy, and the result is the list together
  with the heap of the copy. The heap of the tab is not touched.
\<close>

definition history :: "tab \<Rightarrow> (error \<times> tab) + ((pyval list \<times> heap) \<times> tab)" where
  "history s =
     (let s1 = logger_log ''getting history'' (Some 3) s in
      case strip_entries (heap s1) (tab_history s1) of
        Inl e \<Rightarrow> Inl (e, s1)
      | Inr h \<Rightarrow> Inr ((tab_history s1, h), s1))"

subsection \<open>The event loop\<close>

text \<open>
  What can happen to a tab: the calls of its owner and the signals of Qt. An exception
  that leaves a slot is printed by PyQt and the loop goes on; one that leaves a method
  goes to the caller. Either way the tab stays as the raise left it. \<open>EvStore\<close> is
  the HAR log, or anyone else who holds an object, writing it.
\<close>

datatype event =
    EvGo string callback callback "string option" string "string option"
  | EvClose
  | EvWait nat callback onredirect
  | EvReturnResult string
  | EvReturnError "string option"
  | EvHistory
  | EvSetDefaultHeaders "(string \<times> string) list option"
  | EvPageError "string option"
  | EvLoadFinished bool
  | EvUrlChanged string "pyval option"
  | EvTimeout timer
  | EvReplyFinished nat reply
  | EvStore addr pyobj

fun emit_load_finished :: "bool \<Rightarrow> (callback \<times> callback) list \<Rightarrow> tab \<Rightarrow> tab" where
  "emit_load_finished ok [] s = s"
| "emit_load_finished ok ((cb, errback) # slots) s =
     emit_load_finished ok slots (state_of (on_goto_load_finished ok cb errback s))"

fun step :: "env \<Rightarrow> event \<Rightarrow> tab \<Rightarrow> tab" where
  "step ev (EvGo url cb errback baseurl http_method body) s =
     state_of (go ev url cb errback baseurl http_method body s)"
| "step ev EvClose s = close s"
| "step ev (EvWait time_ms cb onred) s = wait time_ms cb onred s"
| "step ev (EvReturnResult r) s = state_of (return_result r s)"
| "step ev (EvReturnError e) s = state_of (return_error e s)"
| "step ev EvHistory s = (case history s of Inl (e, s1) \<Rightarrow> s1 | Inr (h, s1) \<Rightarrow> s1)"
| "step ev (EvSetDefaultHeaders hs) s = set_default_headers hs s"
| "step ev (EvPageError i) s = s\<lparr>error_info := i\<rparr>"
| "step ev (EvLoadFinished ok) s = emit_load_finished ok (load_finished_slots s) s"
| "step ev (EvUrlChanged url cause_ev) s = state_of (on_url_changed ev url cause_ev s)"
| "step ev (EvTimeout t) s = state_of (qt_timeout t s)"
| "step ev (EvReplyFinished i rep) s =
     (if i < length (reply_finished_slots s)
      then (case reply_finished_slots s ! i of
              (cb, errback, baseurl, url) \<Rightarrow>
                state_of (on_baseurl_request_finished ev cb errback baseurl url rep s))
      else s)"
| "step ev (EvStore a obj) s = s\<lparr>heap := (heap s)(a := obj)\<rparr>"

fun run :: "env \<Rightarrow> event list \<Rightarrow> tab \<Rightarrow> tab" where
  "run ev [] s = s"
| "run ev (e # es) s = run ev es (step ev e s)"

subsection \<open>Predicates of the properties\<close>

definition actions :: "effect list \<Rightarrow> effect list" where
  "actions es = filter (\<lambda>e. \<not> is_log e) es"

fun is_request :: "effect \<Rightarrow> bool" where
  "is_request (NetworkGet rq) = True"
| "is_request (FrameLoad rq m b) = True"
| "is_request e = False"

definition tab_inv :: "tab \<Rightarrow> bool" where
  "tab_inv s = (dict_keys (cancel_on_redirect_timers s) \<subseteq> active_timers s)"

definition removed_together :: "tab \<Rightarrow> tab \<Rightarrow> bool" where
  "removed_together s s' =
     ((active_timers s - active_timers s') \<inter> dict_keys (cancel_on_redirect_timers s') = {} \<and>
      (dict_keys (cancel_on_redirect_timers s) - dict_keys (cancel_on_redirect_timers s'))
         \<inter> active_timers s' = {})"

definition tab_wf :: "tab \<Rightarrow> bool" where
  "tab_wf s =
     (tab_inv s \<and> distinct (map fst (cancel_on_redirect_timers s)) \<and>
      active_timers s \<subseteq> {t. t < next_timer s})"

text \<open>The \<open>request\<close> of an entry, when the entry is a dictionary that has one.\<close>

definition request_of :: "heap \<Rightarrow> pyval \<Rightarrow> addr option" where
  "request_of h entry =
     (case entry of
        PRef a \<Rightarrow>
          (case h a of
             PDict d \<Rightarrow> (case dict_get ''request'' d of Some (PRef b) \<Rightarrow> Some b | _ \<Rightarrow> None)
           | PList xs \<Rightarrow> None)
      | other \<Rightarrow> None)"

definition has_query_string :: "heap \<Rightarrow> pyval \<Rightarrow> bool" where
  "has_query_string h entry =
     (case request_of h entry of
        None \<Rightarrow> False
      | Some b \<Rightarrow>
          (case h b of
             PDict rq \<Rightarrow> dict_get ''queryString'' rq \<noteq> None
           | PList xs \<Rightarrow> False))"

text \<open>
  The snapshot in the words of the specification: a copy of the history list, in order,
  where every entry that is not \<open>None\<close> has lost the field \<open>queryString\<close> of its
  \<open>request\<close>. In the copy, the objects that are the \<open>request\<close> of such an entry are
  without the field, and every other object is as it was.
\<close>

fun without_query_string :: "pyobj \<Rightarrow> pyobj" where
  "without_query_string (PDict rq) = PDict (dict_pop ''queryString'' rq)"
| "without_query_string (PList xs) = PList xs"

definition requests_of :: "heap \<Rightarrow> pyval list \<Rightarrow> addr option list" where
  "requests_of h hist = map (request_of h) (filter (\<lambda>entry. entry \<noteq> PNone) hist)"

definition stripped :: "heap \<Rightarrow> addr set \<Rightarrow> heap" where
  "stripped h B = (\<lambda>a. if a \<in> B then without_query_string (h a) else h a)"

definition spec_history_snapshot :: "heap \<Rightarrow> pyval list \<Rightarrow> pyval list \<times> heap" where
  "spec_history_snapshot h hist =
     (hist, stripped h {b. Some b \<in> set (requests_of h hist)})"


fun policy_raises :: "onredirect \<Rightarrow> bool" where
  "policy_raises (OCallable c) = raises c"
| "policy_raises p = False"

fun swept :: "(timer \<times> onredirect) list \<Rightarrow> (timer \<times> onredirect) list" where
  "swept [] = []"
| "swept ((t, p) # items) = (t, p) # (if policy_raises p then [] else swept items)"



text \<open>The effects that concern the timer \<open>t\<close>; a log message concerns no timer.\<close>

fun about :: "timer \<Rightarrow> effect \<Rightarrow> bool" where
  "about t (TimerStart x n) = (x = t)"
| "about t (TimerStop x) = (x = t)"
| "about t (ActiveAdd x) = (x = t)"
| "about t (ActiveRemove x) = (x = t)"
| "about t (CancelSet x p) = (x = t)"
| "about t (CancelPop x) = (x = t)"
| "about t (Called (OnTimeout x) c) = (x = t)"
| "about t (Called (OnRedirect x) c) = (x = t)"
| "about t e = False"


definition quiet_about :: "timer \<Rightarrow> tab \<Rightarrow> tab \<Rightarrow> bool" where
  "quiet_about t s s' =
     (take (length (trace s)) (trace s') = trace s \<and>
      filter (about t) (new_effects s s') = [])"

section \<open>Properties\<close>

subsection \<open>Effects and frames\<close>

lemma trace_emit [simp]: "trace (emit e s) = trace s @ [e]"
  by (simp add: emit_def)

lemma emit_frame [simp]:
  "deferred_called (emit e s) = deferred_called s"
  "deferred_value (emit e s) = deferred_value s"
  "verbosity (emit e s) = verbosity s"
  "uid (emit e s) = uid s"
  "closing (emit e s) = closing s"
  "default_headers (emit e s) = default_headers s"
  "active_timers (emit e s) = active_timers s"
  "cancel_on_redirect_timers (emit e s) = cancel_on_redirect_timers s"
  "tab_history (emit e s) = tab_history s"
  "heap (emit e s) = heap s"
  "error_info (emit e s) = error_info s"
  "custom_user_agent (emit e s) = custom_user_agent s"
  "load_finished_slots (emit e s) = load_finished_slots s"
  "reply_finished_slots (emit e s) = reply_finished_slots s"
  "qtimers (emit e s) = qtimers s"
  "next_timer (emit e s) = next_timer s"
  by (simp_all add: emit_def)

lemma trace_logger_log [simp]:
  "trace (logger_log m (Some l) s) =
     trace s @ (if int l \<le> verbosity s then [LogMsg (''['' @ uid s @ ''] '' @ m)] else [])"
  by (simp add: logger_log_def)

lemma logger_log_frame [simp]:
  "deferred_called (logger_log m l s) = deferred_called s"
  "deferred_value (logger_log m l s) = deferred_value s"
  "verbosity (logger_log m l s) = verbosity s"
  "uid (logger_log m l s) = uid s"
  "closing (logger_log m l s) = closing s"
  "default_headers (logger_log m l s) = default_headers s"
  "active_timers (logger_log m l s) = active_timers s"
  "cancel_on_redirect_timers (logger_log m l s) = cancel_on_redirect_timers s"
  "tab_history (logger_log m l s) = tab_history s"
  "heap (logger_log m l s) = heap s"
  "error_info (logger_log m l s) = error_info s"
  "custom_user_agent (logger_log m l s) = custom_user_agent s"
  "load_finished_slots (logger_log m l s) = load_finished_slots s"
  "reply_finished_slots (logger_log m l s) = reply_finished_slots s"
  "qtimers (logger_log m l s) = qtimers s"
  "next_timer (logger_log m l s) = next_timer s"
  by (simp_all add: logger_log_def split: option.splits)

lemma logger_log_untraced [simp]: "(logger_log m l s)\<lparr>trace := x\<rparr> = s\<lparr>trace := x\<rparr>"
  by (simp add: logger_log_def emit_def split: option.splits)

lemma emit_untraced [simp]: "(emit e s)\<lparr>trace := x\<rparr> = s\<lparr>trace := x\<rparr>"
  by (simp add: emit_def)

lemma state_of_call [simp]: "state_of (call st c s) = emit (Called st c) s"
  by (simp add: call_def Let_def)

lemma call_outcome:
  "call st c s =
     (if raises c then Inl (CallbackError, emit (Called st c) s) else Inr (emit (Called st c) s))"
  by (simp add: call_def Let_def)

lemma new_effects_append [simp]: "trace s' = trace s @ es \<Longrightarrow> new_effects s s' = es"
  by (simp add: new_effects_def)

lemma actions_simps [simp]:
  "actions [] = []"
  "actions (xs @ ys) = actions xs @ actions ys"
  "actions (e # es) = (if is_log e then actions es else e # actions es)"
  by (simp_all add: actions_def)

lemma set_request_headers_frame [simp]:
  "closing (snd (set_request_headers hs rq s)) = closing s"
  "active_timers (snd (set_request_headers hs rq s)) = active_timers s"
  "cancel_on_redirect_timers (snd (set_request_headers hs rq s)) = cancel_on_redirect_timers s"
  "qtimers (snd (set_request_headers hs rq s)) = qtimers s"
  "next_timer (snd (set_request_headers hs rq s)) = next_timer s"
  "trace (snd (set_request_headers hs rq s)) = trace s"
  "tab_history (snd (set_request_headers hs rq s)) = tab_history s"
  by (induction hs rq s rule: set_request_headers.induct) simp_all

lemma create_request_frame:
  assumes "create_request ev url s = Inr (rq, s1)"
  shows "closing s1 = closing s" "active_timers s1 = active_timers s"
    "cancel_on_redirect_timers s1 = cancel_on_redirect_timers s"
    "qtimers s1 = qtimers s" "next_timer s1 = next_timer s" "trace s1 = trace s"
    "tab_history s1 = tab_history s"
proof -
  from assms obtain u where
    "set_request_headers (case default_headers s of None \<Rightarrow> [] | Some hs \<Rightarrow> hs)
        \<lparr>req_url = u, raw_headers = [], originating_object = False\<rparr> s = (rq, s1)"
    by (auto simp add: create_request_def split: option.splits)
  then have s1: "s1 = snd (set_request_headers (case default_headers s of None \<Rightarrow> [] | Some hs \<Rightarrow> hs)
        \<lparr>req_url = u, raw_headers = [], originating_object = False\<rparr> s)"
    by simp
  show "closing s1 = closing s" "active_timers s1 = active_timers s"
    "cancel_on_redirect_timers s1 = cancel_on_redirect_timers s"
    "qtimers s1 = qtimers s" "next_timer s1 = next_timer s" "trace s1 = trace s"
    "tab_history s1 = tab_history s"
    by (simp_all add: s1)
qed

lemma create_request_fail:
  "create_request ev url s = Inl (e, s1) \<Longrightarrow> s1 = s"
  by (auto simp add: create_request_def split: option.splits)

lemma load_url_frame [simp]:
  "closing (state_of (load_url_to_mainframe ev url m b s)) = closing s"
  "active_timers (state_of (load_url_to_mainframe ev url m b s)) = active_timers s"
  "cancel_on_redirect_timers (state_of (load_url_to_mainframe ev url m b s)) = cancel_on_redirect_timers s"
  "qtimers (state_of (load_url_to_mainframe ev url m b s)) = qtimers s"
  "next_timer (state_of (load_url_to_mainframe ev url m b s)) = next_timer s"
  by (auto simp add: load_url_to_mainframe_def create_request_frame
      split: sum.splits option.splits prod.splits dest: create_request_fail)

lemma go_frame [simp]:
  "closing (state_of (go ev url cb eb bu m b s)) = closing s"
  "active_timers (state_of (go ev url cb eb bu m b s)) = active_timers s"
  "cancel_on_redirect_timers (state_of (go ev url cb eb bu m b s)) = cancel_on_redirect_timers s"
  "qtimers (state_of (go ev url cb eb bu m b s)) = qtimers s"
  "next_timer (state_of (go ev url cb eb bu m b s)) = next_timer s"
  by (auto simp add: go_def store_har_timing_def Let_def create_request_frame
      split: sum.splits option.splits prod.splits dest: create_request_fail)

subsection \<open>Classification of a load-finished signal\<close>

text \<open>
  C1. A load-finished signal that arrives while the tab is not closing is classified by
  \<open>ok\<close> and the error slot of the page: with \<open>ok\<close> and an empty slot the success
  callback is invoked; without \<open>ok\<close> and with an empty slot nothing is invoked; with
  the slot set the error callback is invoked, whatever \<open>ok\<close> is. Apart from log
  messages the handler does nothing else, and it changes no attribute of the tab,
  whether the callable that it invokes returns or raises.
\<close>

theorem load_finished_classification:
  assumes "\<not> closing s"
  shows "(ok \<and> error_info s = None \<longrightarrow>
            actions (new_effects s (state_of (on_goto_load_finished ok cb errback s))) =
              [Called OnLoadFinished cb]) \<and>
         (\<not> ok \<and> error_info s = None \<longrightarrow>
            actions (new_effects s (state_of (on_goto_load_finished ok cb errback s))) = []) \<and>
         (error_info s \<noteq> None \<longrightarrow>
            actions (new_effects s (state_of (on_goto_load_finished ok cb errback s))) =
              [Called OnLoadFinished errback]) \<and>
         (state_of (on_goto_load_finished ok cb errback s))\<lparr>trace := trace s\<rparr> = s"
  using assms by (auto simp add: on_goto_load_finished_def)

theorem load_finished_classification_witness:
  "\<not> closing (init_tab 2 ''7'') \<and>
   actions (new_effects (init_tab 2 ''7'')
      (state_of (on_goto_load_finished True (Returns 1) (Returns 2) (init_tab 2 ''7'')))) =
     [Called OnLoadFinished (Returns 1)] \<and>
   actions (new_effects (init_tab 2 ''7'')
      (state_of (on_goto_load_finished False (Returns 1) (Returns 2) (init_tab 2 ''7'')))) = [] \<and>
   actions (new_effects ((init_tab 2 ''7'')\<lparr>error_info := Some ''e''\<rparr>)
      (state_of (on_goto_load_finished False (Returns 1) (Returns 2)
         ((init_tab 2 ''7'')\<lparr>error_info := Some ''e''\<rparr>)))) =
     [Called OnLoadFinished (Returns 2)]"
  using load_finished_classification [of "init_tab 2 ''7''" True "Returns 1" "Returns 2"]
    load_finished_classification [of "init_tab 2 ''7''" False "Returns 1" "Returns 2"]
    load_finished_classification
      [of "(init_tab 2 ''7'')\<lparr>error_info := Some ''e''\<rparr>" False "Returns 1" "Returns 2"]
  by (simp add: init_tab_def)

subsection \<open>The result channel\<close>




subsection \<open>A base URL with a method other than GET\<close>

text \<open>
  C3. \<open>go\<close> with a base URL set (a string that is not empty, the test \<open>if baseurl\<close>)
  and a method other than \<open>GET\<close> raises \<open>NotImplementedError\<close>, the exception that
  the specification calls NotSupportedError. Up to the raise no request has gone to the
  network manager or to the frame, and no slot has been connected.
\<close>

theorem go_baseurl_non_get_fails:
  assumes "str_set baseurl" and "http_method \<noteq> ''GET''"
  shows "\<exists>s'. go ev url cb errback baseurl http_method body s = Inl (NotImplementedError, s') \<and>
           filter is_request (new_effects s s') = [] \<and>
           reply_finished_slots s' = reply_finished_slots s \<and>
           load_finished_slots s' = load_finished_slots s"
  using assms by (simp add: go_def store_har_timing_def Let_def)

theorem go_baseurl_non_get_fails_witness:
  "str_set (Some ''http://b/'') \<and> ''POST'' \<noteq> ''GET'' \<and>
   (\<exists>s'. go \<lparr>decode_utf8 = Some, operation_qt_constants = map_of [(''GET'', 2), (''POST'', 4)],
               without_private = (\<lambda>h d. (d, h))\<rparr>
             ''http://a/'' (Returns 1) (Returns 2) (Some ''http://b/'') ''POST'' None (init_tab 1 ''7'') =
           Inl (NotImplementedError, s') \<and>
         filter is_request (new_effects (init_tab 1 ''7'') s') = [] \<and>
         reply_finished_slots s' = reply_finished_slots (init_tab 1 ''7'') \<and>
         load_finished_slots s' = load_finished_slots (init_tab 1 ''7''))"
proof -
  have a: "str_set (Some ''http://b/'')" by (simp add: str_set_def)
  have b: "''POST'' \<noteq> ''GET''" by simp
  show ?thesis using a b go_baseurl_non_get_fails [OF a b] by blast
qed

text \<open>
  C10. The same rejected call has stored the timing \<open>_onStarted\<close> in the HAR log before
  it raises: that is the one effect of the call, and the tab it leaves differs from the
  tab it found.
\<close>

theorem go_baseurl_non_get_stores_timing:
  assumes "str_set baseurl" and "http_method \<noteq> ''GET''"
  shows "new_effects s (state_of (go ev url cb errback baseurl http_method body s)) =
           [StoreTiming ''_onStarted''] \<and>
         state_of (go ev url cb errback baseurl http_method body s) \<noteq> s"
proof -
  have g: "go ev url cb errback baseurl http_method body s =
             Inl (NotImplementedError, emit (StoreTiming ''_onStarted'') s)"
    using assms by (simp add: go_def store_har_timing_def Let_def)
  have "trace (emit (StoreTiming ''_onStarted'') s) \<noteq> trace s" by simp
  then have "emit (StoreTiming ''_onStarted'') s \<noteq> s" by metis
  with g show ?thesis by simp
qed

theorem go_baseurl_non_get_stores_timing_witness:
  "str_set (Some ''http://b/'') \<and> ''POST'' \<noteq> ''GET'' \<and>
   new_effects (init_tab 1 ''7'')
     (state_of (go \<lparr>decode_utf8 = Some, operation_qt_constants = map_of [(''GET'', 2), (''POST'', 4)],
                     without_private = (\<lambda>h d. (d, h))\<rparr>
                  ''http://a/'' (Returns 1) (Returns 2) (Some ''http://b/'') ''POST'' None (init_tab 1 ''7''))) =
     [StoreTiming ''_onStarted'']"
proof -
  have a: "str_set (Some ''http://b/'')" by (simp add: str_set_def)
  have b: "''POST'' \<noteq> ''GET''" by simp
  show ?thesis using a b go_baseurl_non_get_stores_timing [OF a b] by blast
qed

subsection \<open>The reply of the base URL request\<close>




subsection \<open>Frames of the remaining operations\<close>

lemma dict_keys_Nil [simp]: "dict_keys [] = {}"
  by (simp add: dict_keys_def)

lemma dict_keys_pop [simp]: "dict_keys (dict_pop k d) = dict_keys d - {k}"
  by (auto simp add: dict_keys_def dict_pop_def)

lemma dict_set_map_fst:
  "map fst (map (\<lambda>kv. if fst kv = k then (k, v) else kv) d) = map fst d"
  by (induction d) auto

lemma dict_keys_set [simp]: "dict_keys (dict_set k v d) = insert k (dict_keys d)"
proof (cases "k \<in> dict_keys d")
  case True
  have "dict_keys (dict_set k v d) = set (map fst (map (\<lambda>kv. if fst kv = k then (k, v) else kv) d))"
    using True by (simp add: dict_keys_def dict_set_def del: map_map)
  also have "\<dots> = dict_keys d"
    by (simp only: dict_set_map_fst) (simp add: dict_keys_def)
  finally show ?thesis using True by auto
next
  case False
  then show ?thesis by (simp add: dict_keys_def dict_set_def)
qed

lemma return_frame [simp]:
  "closing (state_of (return_result r s)) = closing s"
  "active_timers (state_of (return_result r s)) = active_timers s"
  "cancel_on_redirect_timers (state_of (return_result r s)) = cancel_on_redirect_timers s"
  "qtimers (state_of (return_result r s)) = qtimers s"
  "next_timer (state_of (return_result r s)) = next_timer s"
  "closing (state_of (return_error e s)) = closing s"
  "active_timers (state_of (return_error e s)) = active_timers s"
  "cancel_on_redirect_timers (state_of (return_error e s)) = cancel_on_redirect_timers s"
  "qtimers (state_of (return_error e s)) = qtimers s"
  "next_timer (state_of (return_error e s)) = next_timer s"
  by (simp_all add: return_result_def return_error_def deferred_callback_def
      deferred_errback_def Let_def split: option.splits)

lemma close_frame [simp]:
  "closing (close s)"
  "active_timers (close s) = active_timers s"
  "cancel_on_redirect_timers (close s) = cancel_on_redirect_timers s"
  "qtimers (close s) = qtimers s"
  "next_timer (close s) = next_timer s"
  by (simp_all add: close_def Let_def)

lemma history_frame:
  "history s = Inl (e, s1) \<Longrightarrow> s1 = logger_log ''getting history'' (Some 3) s"
  "history s = Inr (r, s1) \<Longrightarrow> s1 = logger_log ''getting history'' (Some 3) s"
  by (auto simp add: history_def Let_def split: sum.splits)

lemma baseurl_finished_frame [simp]:
  "closing (state_of (on_baseurl_request_finished ev cb eb bu url rep s)) = closing s"
  "active_timers (state_of (on_baseurl_request_finished ev cb eb bu url rep s)) = active_timers s"
  "cancel_on_redirect_timers (state_of (on_baseurl_request_finished ev cb eb bu url rep s)) =
     cancel_on_redirect_timers s"
  "qtimers (state_of (on_baseurl_request_finished ev cb eb bu url rep s)) = qtimers s"
  "next_timer (state_of (on_baseurl_request_finished ev cb eb bu url rep s)) = next_timer s"
  by (simp_all add: on_baseurl_request_finished_def Let_def split: option.splits)

lemma goto_load_finished_frame [simp]:
  "closing (state_of (on_goto_load_finished ok cb eb s)) = closing s"
  "active_timers (state_of (on_goto_load_finished ok cb eb s)) = active_timers s"
  "cancel_on_redirect_timers (state_of (on_goto_load_finished ok cb eb s)) =
     cancel_on_redirect_timers s"
  "qtimers (state_of (on_goto_load_finished ok cb eb s)) = qtimers s"
  "next_timer (state_of (on_goto_load_finished ok cb eb s)) = next_timer s"
  by (simp_all add: on_goto_load_finished_def Let_def)

lemma emit_load_finished_frame [simp]:
  "closing (emit_load_finished ok slots s) = closing s"
  "active_timers (emit_load_finished ok slots s) = active_timers s"
  "cancel_on_redirect_timers (emit_load_finished ok slots s) = cancel_on_redirect_timers s"
  "qtimers (emit_load_finished ok slots s) = qtimers s"
  "next_timer (emit_load_finished ok slots s) = next_timer s"
  by (induction ok slots s rule: emit_load_finished.induct) simp_all

lemma wait_frame [simp]:
  "closing (wait ms cb p s) = closing s"
  "active_timers (wait ms cb p s) = insert (next_timer s) (active_timers s)"
  "cancel_on_redirect_timers (wait ms cb p s) =
     (if truthy p then dict_set (next_timer s) p (cancel_on_redirect_timers s)
      else cancel_on_redirect_timers s)"
  "next_timer (wait ms cb p s) = Suc (next_timer s)"
  by (simp_all add: wait_def Let_def)

lemma wait_qtimers [simp]:
  "qtimers (wait ms cb p s) =
     (qtimers s)(next_timer s \<mapsto> \<lparr>interval = ms, is_active = True, timeout_slot = cb\<rparr>)"
  by (simp add: wait_def Let_def)

lemma on_wait_timeout_frame [simp]:
  "closing (state_of (on_wait_timeout t cb s)) = closing s"
  "active_timers (state_of (on_wait_timeout t cb s)) = active_timers s - {t}"
  "cancel_on_redirect_timers (state_of (on_wait_timeout t cb s)) =
     (if t \<in> active_timers s then dict_pop t (cancel_on_redirect_timers s)
      else cancel_on_redirect_timers s)"
  "qtimers (state_of (on_wait_timeout t cb s)) = qtimers s"
  "next_timer (state_of (on_wait_timeout t cb s)) = next_timer s"
  by (simp_all add: on_wait_timeout_def Let_def)

lemma cancel_timer_frame [simp]:
  "closing (state_of (cancel_timer t p s)) = closing s"
  "active_timers (state_of (cancel_timer t p s)) = active_timers s - {t}"
  "cancel_on_redirect_timers (state_of (cancel_timer t p s)) =
     dict_pop t (cancel_on_redirect_timers s)"
  "next_timer (state_of (cancel_timer t p s)) = next_timer s"
  by (simp_all add: cancel_timer_def timer_stop_def Let_def split: onredirect.splits)

lemma cancel_all_closing [simp]: "closing (state_of (cancel_all items s)) = closing s"
proof (induction items s rule: cancel_all.induct)
  case (1 s)
  show ?case by simp
next
  case (2 t p items s)
  show ?case
  proof (cases "cancel_timer t p s")
    case (Inl x)
    then show ?thesis using cancel_timer_frame(1) [of t p s] by (cases x) simp
  next
    case (Inr s1)
    then show ?thesis using "2.IH" [of s1] cancel_timer_frame(1) [of t p s] by simp
  qed
qed

lemma cancel_all_next_timer [simp]: "next_timer (state_of (cancel_all items s)) = next_timer s"
proof (induction items s rule: cancel_all.induct)
  case (1 s)
  show ?case by simp
next
  case (2 t p items s)
  show ?case
  proof (cases "cancel_timer t p s")
    case (Inl x)
    then show ?thesis using cancel_timer_frame(4) [of t p s] by (cases x) simp
  next
    case (Inr s1)
    then show ?thesis using "2.IH" [of s1] cancel_timer_frame(4) [of t p s] by simp
  qed
qed

lemma on_url_changed_frame [simp]:
  "closing (state_of (on_url_changed ev url c s)) = closing s"
  "next_timer (state_of (on_url_changed ev url c s)) = next_timer s"
  by (simp_all add: on_url_changed_def Let_def split: option.splits)

lemma qt_timeout_frame [simp]:
  "closing (state_of (qt_timeout t s)) = closing s"
  "next_timer (state_of (qt_timeout t s)) = next_timer s"
  by (simp_all add: qt_timeout_def split: option.splits)

lemma closing_step: "closing s \<Longrightarrow> closing (step ev e s)"
proof (cases e)
  case EvHistory
  assume "closing s"
  then show ?thesis using EvHistory
    by (auto split: sum.splits dest!: history_frame)
qed (simp_all add: set_default_headers_def split: prod.splits)

lemma closing_run: "closing s \<Longrightarrow> closing (run ev es s)"
  by (induction es arbitrary: s) (simp_all add: closing_step)

lemma closing_load_finished_silent:
  "closing s \<Longrightarrow>
     \<exists>ls. trace (emit_load_finished ok slots s) = trace s @ ls \<and> actions ls = []"
proof (induction ok slots s rule: emit_load_finished.induct)
  case (1 ok s)
  then show ?case by simp
next
  case (2 ok cb errback slots s)
  let ?s1 = "state_of (on_goto_load_finished ok cb errback s)"
  from "2.prems" have c1: "closing ?s1" by simp
  from "2.prems" obtain l1 where l1: "trace ?s1 = trace s @ l1" "actions l1 = []"
    by (simp add: on_goto_load_finished_def)
  from "2.IH" [OF c1] obtain l2 where
    l2: "trace (emit_load_finished ok slots ?s1) = trace ?s1 @ l2" "actions l2 = []"
    by blast
  from l1 l2 have "trace (emit_load_finished ok ((cb, errback) # slots) s) = trace s @ (l1 @ l2)"
    "actions (l1 @ l2) = []" by simp_all
  then show ?case by blast
qed

subsection \<open>A closing tab\<close>

text \<open>
  C4. Once the closing flag is set it stays set, whatever happens to the tab afterwards,
  and every load-finished signal that arrives then is ignored: the handler invokes
  neither callback and changes no attribute of the tab; at most it writes a log message.
  The same holds for the signal as Qt delivers it, to every connected slot.
\<close>

theorem closing_ignores_load_finished:
  assumes "closing s"
  shows "closing (run ev es s) \<and>
         actions (new_effects (run ev es s)
                    (state_of (on_goto_load_finished ok cb errback (run ev es s)))) = [] \<and>
         (state_of (on_goto_load_finished ok cb errback (run ev es s)))
              \<lparr>trace := trace (run ev es s)\<rparr> =
           run ev es s \<and>
         actions (new_effects (run ev es s) (step ev (EvLoadFinished ok) (run ev es s))) = []"
proof -
  let ?s = "run ev es s"
  have c: "closing ?s" using assms by (rule closing_run)
  have a: "actions (new_effects ?s (state_of (on_goto_load_finished ok cb errback ?s))) = []"
    using c by (simp add: on_goto_load_finished_def)
  have b: "(state_of (on_goto_load_finished ok cb errback ?s))\<lparr>trace := trace ?s\<rparr> = ?s"
    using c by (simp add: on_goto_load_finished_def)
  from closing_load_finished_silent [OF c, of ok "load_finished_slots ?s"]
  have d: "actions (new_effects ?s (step ev (EvLoadFinished ok) ?s)) = []"
    by auto
  from c a b d show ?thesis by blast
qed

theorem closing_ignores_load_finished_witness:
  "closing (close (init_tab 2 ''7'')) \<and>
   closing (run \<lparr>decode_utf8 = Some, operation_qt_constants = map_of [(''GET'', 2)],
                 without_private = (\<lambda>h d. (d, h))\<rparr> [EvPageError None]
              (close (init_tab 2 ''7''))) \<and>
   actions (new_effects
      (run \<lparr>decode_utf8 = Some, operation_qt_constants = map_of [(''GET'', 2)],
            without_private = (\<lambda>h d. (d, h))\<rparr> [EvPageError None] (close (init_tab 2 ''7'')))
      (state_of (on_goto_load_finished True (Returns 1) (Returns 2)
         (run \<lparr>decode_utf8 = Some, operation_qt_constants = map_of [(''GET'', 2)],
               without_private = (\<lambda>h d. (d, h))\<rparr> [EvPageError None]
            (close (init_tab 2 ''7'')))))) = []"
proof -
  have c: "closing (close (init_tab 2 ''7''))" by simp
  show ?thesis
    using c closing_ignores_load_finished [OF c,
        of "\<lparr>decode_utf8 = Some, operation_qt_constants = map_of [(''GET'', 2)],
             without_private = (\<lambda>h d. (d, h))\<rparr>" "[EvPageError None]" True
           "Returns 1" "Returns 2"]
    by blast
qed

subsection \<open>The timer registries\<close>

lemma qt_timeout_registries [simp]:
  "active_timers (state_of (qt_timeout t s)) =
     (if timer_is_active s t then active_timers s - {t} else active_timers s)"
  "cancel_on_redirect_timers (state_of (qt_timeout t s)) =
     (if timer_is_active s t \<and> t \<in> active_timers s
      then dict_pop t (cancel_on_redirect_timers s) else cancel_on_redirect_timers s)"
  by (simp_all add: qt_timeout_def timer_is_active_def split: option.splits)

lemma cancel_all_registries:
  "\<exists>P. P \<subseteq> fst ` set items \<and>
       active_timers (state_of (cancel_all items s)) = active_timers s - P \<and>
       dict_keys (cancel_on_redirect_timers (state_of (cancel_all items s))) =
         dict_keys (cancel_on_redirect_timers s) - P"
proof (induction items s rule: cancel_all.induct)
  case (1 s)
  have "{} \<subseteq> fst ` set ([] :: (timer \<times> onredirect) list) \<and>
        active_timers (state_of (cancel_all [] s)) = active_timers s - {} \<and>
        dict_keys (cancel_on_redirect_timers (state_of (cancel_all [] s))) =
          dict_keys (cancel_on_redirect_timers s) - {}"
    by simp
  then show ?case by blast
next
  case (2 t p items s)
  let ?r = "state_of (cancel_timer t p s)"
  have a1: "active_timers ?r = active_timers s - {t}" by simp
  have k1: "dict_keys (cancel_on_redirect_timers ?r) = dict_keys (cancel_on_redirect_timers s) - {t}"
    by simp
  show ?case
  proof (cases "cancel_timer t p s")
    case (Inl x)
    then have "state_of (cancel_all ((t, p) # items) s) = ?r" by (cases x) simp
    with a1 k1 have "{t} \<subseteq> fst ` set ((t, p) # items) \<and>
        active_timers (state_of (cancel_all ((t, p) # items) s)) = active_timers s - {t} \<and>
        dict_keys (cancel_on_redirect_timers (state_of (cancel_all ((t, p) # items) s))) =
          dict_keys (cancel_on_redirect_timers s) - {t}"
      by simp
    then show ?thesis by blast
  next
    case (Inr s1)
    then have r: "?r = s1" by simp
    from "2.IH" [OF Inr] obtain P where
      P: "P \<subseteq> fst ` set items"
         "active_timers (state_of (cancel_all items s1)) = active_timers s1 - P"
         "dict_keys (cancel_on_redirect_timers (state_of (cancel_all items s1))) =
            dict_keys (cancel_on_redirect_timers s1) - P"
      by blast
    have e: "state_of (cancel_all ((t, p) # items) s) = state_of (cancel_all items s1)"
      using Inr by simp
    have "insert t P \<subseteq> fst ` set ((t, p) # items) \<and>
        active_timers (state_of (cancel_all ((t, p) # items) s)) = active_timers s - insert t P \<and>
        dict_keys (cancel_on_redirect_timers (state_of (cancel_all ((t, p) # items) s))) =
          dict_keys (cancel_on_redirect_timers s) - insert t P"
      using P a1 k1 unfolding e r by auto
    then show ?thesis by blast
  qed
qed

lemma on_url_changed_registries:
  "\<exists>P. active_timers (state_of (on_url_changed ev url c s)) = active_timers s - P \<and>
       dict_keys (cancel_on_redirect_timers (state_of (on_url_changed ev url c s))) =
         dict_keys (cancel_on_redirect_timers s) - P"
proof (cases c)
  case None
  then show ?thesis
    using cancel_all_registries [of "cancel_on_redirect_timers s" s]
    by (auto simp add: on_url_changed_def)
next
  case (Some d)
  let ?s1 = "s\<lparr>tab_history := tab_history s @ [fst (without_private ev (heap s) d)],
               heap := snd (without_private ev (heap s) d)\<rparr>"
  from cancel_all_registries [of "cancel_on_redirect_timers ?s1" ?s1] Some
  show ?thesis by (auto simp add: on_url_changed_def)
qed

lemma tab_inv_minus:
  assumes "tab_inv s"
    and "active_timers s' = active_timers s - P"
    and "dict_keys (cancel_on_redirect_timers s') = dict_keys (cancel_on_redirect_timers s) - P"
  shows "tab_inv s'" and "removed_together s s'"
  using assms by (auto simp add: tab_inv_def removed_together_def)

lemma tab_inv_same:
  assumes "tab_inv s"
    and "active_timers s' = active_timers s"
    and "cancel_on_redirect_timers s' = cancel_on_redirect_timers s"
  shows "tab_inv s'"
  using assms by (simp add: tab_inv_def)

lemma tab_inv_wait: "tab_inv s \<Longrightarrow> tab_inv (wait ms cb p s)"
  by (auto simp add: tab_inv_def)

lemma tab_inv_on_wait_timeout: "tab_inv s \<Longrightarrow> tab_inv (state_of (on_wait_timeout t cb s))"
  by (auto simp add: tab_inv_def)

lemma tab_inv_cancel_timer: "tab_inv s \<Longrightarrow> tab_inv (state_of (cancel_timer t p s))"
  by (auto simp add: tab_inv_def)

lemma tab_inv_on_url_changed: "tab_inv s \<Longrightarrow> tab_inv (state_of (on_url_changed ev url c s))"
  using on_url_changed_registries [of ev url c s] tab_inv_minus(1) by blast

lemma tab_inv_qt_timeout: "tab_inv s \<Longrightarrow> tab_inv (state_of (qt_timeout t s))"
  by (auto simp add: tab_inv_def)

lemma tab_inv_step: "tab_inv s \<Longrightarrow> tab_inv (step ev e s)"
proof (cases e)
  case EvHistory
  assume "tab_inv s"
  then show ?thesis using EvHistory
    by (auto simp add: tab_inv_def split: sum.splits dest!: history_frame)
next
  case (EvWait ms cb p)
  assume "tab_inv s"
  then show ?thesis using EvWait by (simp add: tab_inv_wait)
next
  case (EvUrlChanged url c)
  assume "tab_inv s"
  then show ?thesis using EvUrlChanged by (simp add: tab_inv_on_url_changed)
next
  case (EvTimeout t)
  assume "tab_inv s"
  then show ?thesis using EvTimeout by (simp add: tab_inv_qt_timeout)
qed (simp_all add: tab_inv_def set_default_headers_def split: prod.splits)

lemma tab_inv_run: "tab_inv s \<Longrightarrow> tab_inv (run ev es s)"
  by (induction es arbitrary: s) (simp_all add: tab_inv_step)

text \<open>
  C7. Every timer in the redirect-cancel dictionary is in the set of active timers: this
  holds for a new tab and is kept by \<open>wait\<close>, by the expiry of a timer, by the
  cancellation of a timer and by the sweep of a URL change, hence after any sequence of
  operations and signals. Each of them, when it removes a timer from one of the two
  registries, leaves it in neither.
\<close>

theorem registries_stay_consistent:
  assumes "tab_inv s"
  shows "tab_inv (init_tab v u) \<and>
         tab_inv (wait ms cb p s) \<and> removed_together s (wait ms cb p s) \<and>
         tab_inv (state_of (on_wait_timeout t cb s)) \<and>
         removed_together s (state_of (on_wait_timeout t cb s)) \<and>
         tab_inv (state_of (qt_timeout t s)) \<and>
         removed_together s (state_of (qt_timeout t s)) \<and>
         tab_inv (state_of (cancel_timer t p s)) \<and>
         removed_together s (state_of (cancel_timer t p s)) \<and>
         tab_inv (state_of (on_url_changed ev url c s)) \<and>
         removed_together s (state_of (on_url_changed ev url c s)) \<and>
         tab_inv (run ev es s)"
proof -
  have i: "tab_inv (init_tab v u)" by (simp add: tab_inv_def init_tab_def dict_keys_def)
  have w: "removed_together s (wait ms cb p s)"
    by (auto simp add: removed_together_def)
  have o: "removed_together s (state_of (on_wait_timeout t cb s))"
    using assms by (auto simp add: removed_together_def tab_inv_def)
  have q: "removed_together s (state_of (qt_timeout t s))"
    using assms by (auto simp add: removed_together_def tab_inv_def)
  have k: "removed_together s (state_of (cancel_timer t p s))"
    by (auto simp add: removed_together_def)
  have c: "removed_together s (state_of (on_url_changed ev url c s))"
    using on_url_changed_registries [of ev url c s] tab_inv_minus(2) [OF assms] by blast
  from i w o q k c assms show ?thesis
    by (simp add: tab_inv_wait tab_inv_on_wait_timeout tab_inv_qt_timeout
        tab_inv_cancel_timer tab_inv_on_url_changed tab_inv_run)
qed

theorem registries_stay_consistent_witness:
  "tab_inv (wait 100 (Returns 7) (OBool True) (init_tab 0 ''7'')) \<and>
   tab_inv (state_of (on_url_changed
      \<lparr>decode_utf8 = Some, operation_qt_constants = map_of [(''GET'', 2)],
       without_private = (\<lambda>h d. (d, h))\<rparr> ''http://a/'' None
      (wait 100 (Returns 7) (OBool True) (init_tab 0 ''7'')))) \<and>
   removed_together (wait 100 (Returns 7) (OBool True) (init_tab 0 ''7''))
     (state_of (qt_timeout 0 (wait 100 (Returns 7) (OBool True) (init_tab 0 ''7''))))"
proof -
  have a: "tab_inv (wait 100 (Returns 7) (OBool True) (init_tab 0 ''7''))"
    by (simp add: tab_inv_def init_tab_def)
  show ?thesis
    using a registries_stay_consistent [OF a, of 0 "''7''" 100 "Returns 7" "OBool True" 0
        "\<lparr>decode_utf8 = Some, operation_qt_constants = map_of [(''GET'', 2)],
          without_private = (\<lambda>h d. (d, h))\<rparr>" "''http://a/''" None "[]"]
    by blast
qed

subsection \<open>The expiry of a timer\<close>

text \<open>
  C6, as stated, fails: a timer is scheduled on a new tab and expires. The handler first
  removes the timer from the set of active timers, then from the redirect-cancel
  dictionary, and invokes the callback last.
\<close>

theorem wait_timeout_callback_last_counterexample:
  "actions (new_effects (wait 100 (Returns 7) (OBool True) (init_tab 0 ''7''))
      (state_of (qt_timeout 0 (wait 100 (Returns 7) (OBool True) (init_tab 0 ''7''))))) =
   [ActiveRemove 0, CancelPop 0, Called (OnTimeout 0) (Returns 7)]"
  by (simp add: qt_timeout_def on_wait_timeout_def wait_def call_def logger_log_def
      init_tab_def emit_def new_effects_def Let_def)

text \<open>
  C6, amended. On the expiry of a timer that is in the set of active timers, the handler
  removes the timer from the set of active timers, then from the redirect-cancel
  dictionary, and then invokes the callback of the timer; the callback runs last, when
  the timer is in neither registry. The handler returns unless the callback raises.
\<close>

theorem wait_timeout_removes_then_calls:
  assumes "t \<in> active_timers s"
  shows "\<exists>s'. on_wait_timeout t cb s =
                (if raises cb then Inl (CallbackError, s') else Inr s') \<and>
           actions (new_effects s s') = [ActiveRemove t, CancelPop t, Called (OnTimeout t) cb] \<and>
           active_timers s' = active_timers s - {t} \<and>
           dict_keys (cancel_on_redirect_timers s') =
             dict_keys (cancel_on_redirect_timers s) - {t}"
  using assms by (simp add: on_wait_timeout_def call_outcome Let_def)

theorem wait_timeout_removes_then_calls_witness:
  "0 \<in> active_timers (wait 100 (Returns 7) (OBool True) (init_tab 0 ''7'')) \<and>
   (\<exists>s'. on_wait_timeout 0 (Returns 7) (wait 100 (Returns 7) (OBool True) (init_tab 0 ''7'')) =
           Inr s' \<and>
      actions (new_effects (wait 100 (Returns 7) (OBool True) (init_tab 0 ''7'')) s') =
        [ActiveRemove 0, CancelPop 0, Called (OnTimeout 0) (Returns 7)] \<and>
      active_timers s' =
        active_timers (wait 100 (Returns 7) (OBool True) (init_tab 0 ''7'')) - {0} \<and>
      dict_keys (cancel_on_redirect_timers s') =
        dict_keys (cancel_on_redirect_timers
          (wait 100 (Returns 7) (OBool True) (init_tab 0 ''7''))) - {0})"
proof -
  have a: "0 \<in> active_timers (wait 100 (Returns 7) (OBool True) (init_tab 0 ''7''))"
    by (simp add: init_tab_def)
  from wait_timeout_removes_then_calls [OF a, of "Returns 7"] a show ?thesis by simp
qed

subsection \<open>The history\<close>

lemma dict_get_None_iff: "dict_get k d = None \<longleftrightarrow> k \<notin> dict_keys d"
  by (induction k d rule: dict_get.induct) (auto simp add: dict_keys_def)

lemma dict_get_pop [simp]: "dict_get k (dict_pop k d) = None"
  by (simp add: dict_get_None_iff)

lemma dict_get_pop_other [simp]: "k \<noteq> k' \<Longrightarrow> dict_get k (dict_pop k' d) = dict_get k d"
  by (induction k d rule: dict_get.induct) (auto simp add: dict_pop_def)

lemma dict_pop_idem [simp]: "dict_pop k (dict_pop k d) = dict_pop k d"
  by (simp add: dict_pop_def)

lemma without_query_string_idem [simp]:
  "without_query_string (without_query_string obj) = without_query_string obj"
  by (cases obj) simp_all

lemma stripped_empty [simp]: "stripped h {} = h"
  by (simp add: stripped_def)

lemma stripped_insert:
  "(stripped h B)(b := without_query_string (stripped h B b)) = stripped h (insert b B)"
  by (auto simp add: stripped_def fun_eq_iff)

lemma request_of_stripped [simp]: "request_of (stripped h B) e = request_of h e"
proof (cases e)
  case (PRef a)
  show ?thesis
  proof (cases "h a")
    case (PDict dd)
    with PRef show ?thesis by (simp add: request_of_def stripped_def)
  next
    case (PList xs)
    with PRef show ?thesis by (simp add: request_of_def stripped_def)
  qed
qed (simp_all add: request_of_def)

lemma has_query_string_stripped:
  "has_query_string (stripped h B) e \<longleftrightarrow>
     has_query_string h e \<and> (\<forall>b \<in> B. request_of h e \<noteq> Some b)"
proof (cases "request_of h e")
  case None
  then show ?thesis by (simp add: has_query_string_def)
next
  case (Some c)
  have 1: "has_query_string (stripped h B) e \<longleftrightarrow>
             (case stripped h B c of
                PDict rq \<Rightarrow> dict_get ''queryString'' rq \<noteq> None
              | PList xs \<Rightarrow> False)"
    using Some by (simp add: has_query_string_def)
  have 2: "stripped h B c = (if c \<in> B then without_query_string (h c) else h c)"
    by (simp add: stripped_def)
  have 3: "has_query_string h e \<longleftrightarrow>
             (case h c of
                PDict rq \<Rightarrow> dict_get ''queryString'' rq \<noteq> None
              | PList xs \<Rightarrow> False)"
    using Some by (simp add: has_query_string_def)
  show ?thesis
    unfolding 1 2 3 using Some by (cases "h c") auto
qed

lemma del_query_string_has:
  assumes "has_query_string h e"
  shows "\<exists>b. request_of h e = Some b \<and>
           del_query_string h e = Inr (h(b := without_query_string (h b)))"
  using assms
  by (auto simp add: has_query_string_def request_of_def del_query_string_def
      split: pyval.splits pyobj.splits option.splits)

lemma del_query_string_has_not:
  assumes "\<not> has_query_string h e"
  shows "\<exists>err. del_query_string h e = Inl err"
  using assms
  by (auto simp add: has_query_string_def request_of_def del_query_string_def
      split: pyval.splits pyobj.splits option.splits)

lemma requests_of_Cons:
  "requests_of h (e # hist) =
     (if e = PNone then requests_of h hist else request_of h e # requests_of h hist)"
  by (simp add: requests_of_def)

lemma strip_entries_stripped:
  "strip_entries (stripped h B) hist = Inr h' \<longleftrightarrow>
     (\<forall>e \<in> set hist. e \<noteq> PNone \<longrightarrow> has_query_string h e) \<and>
     distinct (requests_of h hist) \<and>
     (\<forall>b \<in> B. Some b \<notin> set (requests_of h hist)) \<and>
     h' = stripped h (B \<union> {b. Some b \<in> set (requests_of h hist)})"
proof (induction hist arbitrary: B)
  case Nil
  show ?case by (auto simp add: requests_of_def)
next
  case (Cons e hist)
  show ?case
  proof (cases "e = PNone")
    case True
    then show ?thesis using Cons.IH [of B] by (simp add: requests_of_Cons)
  next
    case False
    show ?thesis
    proof (cases "has_query_string (stripped h B) e")
      case True
      from del_query_string_has [OF True] obtain b where
        b: "request_of h e = Some b"
        and dl: "del_query_string (stripped h B) e =
                   Inr ((stripped h B)(b := without_query_string (stripped h B b)))"
        by auto
      from True have hq: "has_query_string h e" and nb: "b \<notin> B"
        using b by (auto simp add: has_query_string_stripped)
      have st: "strip_entries (stripped h B) (e # hist) = strip_entries (stripped h (insert b B)) hist"
        using False dl by (simp add: stripped_insert)
      have eq: "insert b B \<union> {x. Some x \<in> set (requests_of h hist)} =
                B \<union> {x. Some x \<in> set (requests_of h (e # hist))}"
        using False b by (auto simp add: requests_of_Cons)
      show ?thesis
        unfolding st Cons.IH [of "insert b B"] eq
        using False b hq nb by (auto simp add: requests_of_Cons)
    next
      case nq: False
      from del_query_string_has_not [OF nq] obtain err where
        "del_query_string (stripped h B) e = Inl err" ..
      with False have l: "strip_entries (stripped h B) (e # hist) = Inl err" by simp
      from nq have "\<not> has_query_string h e \<or> (\<exists>b \<in> B. request_of h e = Some b)"
        by (simp add: has_query_string_stripped)
      then have r: "\<not> ((\<forall>x \<in> set (e # hist). x \<noteq> PNone \<longrightarrow> has_query_string h x) \<and>
                 (\<forall>b \<in> B. Some b \<notin> set (requests_of h (e # hist))))"
        using False by (auto simp add: requests_of_Cons)
      from l r show ?thesis by auto
    qed
  qed
qed

lemma strip_entries_iff:
  "strip_entries h hist = Inr h' \<longleftrightarrow>
     (\<forall>e \<in> set hist. e \<noteq> PNone \<longrightarrow> has_query_string h e) \<and>
     distinct (requests_of h hist) \<and>
     (hist, h') = spec_history_snapshot h hist"
  using strip_entries_stripped [of h "{}" hist h'] by (simp add: spec_history_snapshot_def)

lemma snapshot_without_query_string:
  "e \<in> set hist \<Longrightarrow>
     \<not> has_query_string (stripped h {b. Some b \<in> set (requests_of h hist)}) e"
proof (cases "e = PNone")
  case True
  then show ?thesis by (simp add: has_query_string_def request_of_def)
next
  case False
  assume "e \<in> set hist"
  with False have m: "request_of h e \<in> set (requests_of h hist)"
    by (simp add: requests_of_def)
  show ?thesis
  proof (cases "request_of h e")
    case None
    then have "\<not> has_query_string h e" by (simp add: has_query_string_def)
    then show ?thesis by (simp add: has_query_string_stripped)
  next
    case (Some c)
    with m have "c \<in> {b. Some b \<in> set (requests_of h hist)}" by simp
    with Some show ?thesis unfolding has_query_string_stripped by blast
  qed
qed

lemma cancel_timer_history [simp]:
  "tab_history (state_of (cancel_timer t p s)) = tab_history s"
  "heap (state_of (cancel_timer t p s)) = heap s"
  by (simp_all add: cancel_timer_def timer_stop_def Let_def split: onredirect.splits)

lemma cancel_all_keeps:
  assumes "\<And>t p s. f (state_of (cancel_timer t p s)) = f s"
  shows "f (state_of (cancel_all items s)) = f s"
proof (induction items s rule: cancel_all.induct)
  case (1 s)
  show ?case by simp
next
  case (2 t p items s)
  show ?case
  proof (cases "cancel_timer t p s")
    case (Inl x)
    then show ?thesis using assms [of t p s] by (cases x) simp
  next
    case (Inr s1)
    then show ?thesis using "2.IH" [of s1] assms [of t p s] by simp
  qed
qed

lemma cancel_all_history [simp]:
  "tab_history (state_of (cancel_all items s)) = tab_history s"
  "heap (state_of (cancel_all items s)) = heap s"
  by (rule cancel_all_keeps, simp)+

text \<open>
  Two entries that hold one and the same \<open>request\<close>, as they do when two URL changes
  find the same entry of the HAR log and \<open>without_private\<close> copies the entry alone:
  the copy keeps the \<open>request\<close> shared, the first deletion empties it, and the second
  one raises \<open>KeyError\<close>.
\<close>

lemma history_shared_request_raises:
  "history ((init_tab 0 ''7'')
       \<lparr>tab_history := [PRef 1, PRef 2],
        heap := (\<lambda>a. PDict [])
          (1 := PDict [(''request'', PRef 3)],
           2 := PDict [(''request'', PRef 3)],
           3 := PDict [(''queryString'', PStr ''q=1'')])\<rparr>) =
   Inl (KeyError, (init_tab 0 ''7'')
       \<lparr>tab_history := [PRef 1, PRef 2],
        heap := (\<lambda>a. PDict [])
          (1 := PDict [(''request'', PRef 3)],
           2 := PDict [(''request'', PRef 3)],
           3 := PDict [(''queryString'', PStr ''q=1'')])\<rparr>)"
  by (simp add: history_def logger_log_def init_tab_def del_query_string_def dict_pop_def)

text \<open>
  C8, as stated, fails in its last part: a URL change for which the HAR log has no
  preceding entry appends nothing to the history, so the snapshot taken afterwards is
  empty; it holds no \<open>None\<close> entry for that URL change.
\<close>

theorem history_no_null_entry_counterexample:
  "history (state_of (on_url_changed
      \<lparr>decode_utf8 = Some, operation_qt_constants = map_of [(''GET'', 2)],
       without_private = (\<lambda>h d. (d, h))\<rparr> ''http://a/'' None (init_tab 0 ''7''))) =
   Inr (([], heap (init_tab 0 ''7'')), init_tab 0 ''7'')"
  by (simp add: on_url_changed_def history_def logger_log_def init_tab_def)

text \<open>
  C8, amended. When \<open>history\<close> returns, what it returns is the stored history list in
  its order, in a copy of the heap where the \<open>request\<close> of every entry that is not
  \<open>None\<close> has lost the field \<open>queryString\<close> and every other object is as it was: no
  entry of the result has that field, the stored entries that are not \<open>None\<close> all had
  it, and the stored list and the objects it refers to are unchanged. It returns
  exactly when every stored entry is \<open>None\<close> or has the field and no two of them hold
  the same \<open>request\<close>. A URL change for which no preceding HAR entry is found leaves
  the history as it is; one with such an entry appends what \<open>without_private\<close> makes
  of the entry.
\<close>

theorem history_snapshot_without_query_string:
  "(history s = Inr ((hist, h), s') \<longrightarrow>
      (hist, h) = spec_history_snapshot (heap s) (tab_history s) \<and>
      (\<forall>e \<in> set hist. \<not> has_query_string h e) \<and>
      (\<forall>e \<in> set (tab_history s). e \<noteq> PNone \<longrightarrow> has_query_string (heap s) e) \<and>
      tab_history s' = tab_history s \<and> heap s' = heap s) \<and>
   ((\<exists>r s'. history s = Inr (r, s')) \<longleftrightarrow>
      (\<forall>e \<in> set (tab_history s). e = PNone \<or> has_query_string (heap s) e) \<and>
      distinct (requests_of (heap s) (tab_history s))) \<and>
   tab_history (state_of (on_url_changed ev url None s)) = tab_history s \<and>
   heap (state_of (on_url_changed ev url None s)) = heap s \<and>
   tab_history (state_of (on_url_changed ev url (Some d) s)) =
     tab_history s @ [fst (without_private ev (heap s) d)]"
proof -
  have a: "history s = Inr ((hist, h), s') \<longrightarrow>
      (hist, h) = spec_history_snapshot (heap s) (tab_history s) \<and>
      (\<forall>e \<in> set hist. \<not> has_query_string h e) \<and>
      (\<forall>e \<in> set (tab_history s). e \<noteq> PNone \<longrightarrow> has_query_string (heap s) e) \<and>
      tab_history s' = tab_history s \<and> heap s' = heap s"
  proof
    assume r: "history s = Inr ((hist, h), s')"
    then have st: "strip_entries (heap s) (tab_history s) = Inr h"
      and hi: "hist = tab_history s"
      and s': "s' = logger_log ''getting history'' (Some 3) s"
      by (auto simp add: history_def Let_def split: sum.splits)
    from st have q: "\<forall>e \<in> set (tab_history s). e \<noteq> PNone \<longrightarrow> has_query_string (heap s) e"
      and sp: "(tab_history s, h) = spec_history_snapshot (heap s) (tab_history s)"
      by (simp_all add: strip_entries_iff)
    from sp have "h = stripped (heap s) {b. Some b \<in> set (requests_of (heap s) (tab_history s))}"
      by (simp add: spec_history_snapshot_def)
    then have n: "\<forall>e \<in> set hist. \<not> has_query_string h e"
      using hi snapshot_without_query_string [of _ "tab_history s" "heap s"] by blast
    from q sp n hi s'
    show "(hist, h) = spec_history_snapshot (heap s) (tab_history s) \<and>
      (\<forall>e \<in> set hist. \<not> has_query_string h e) \<and>
      (\<forall>e \<in> set (tab_history s). e \<noteq> PNone \<longrightarrow> has_query_string (heap s) e) \<and>
      tab_history s' = tab_history s \<and> heap s' = heap s"
      by simp
  qed
  have b: "(\<exists>r s'. history s = Inr (r, s')) \<longleftrightarrow>
      (\<forall>e \<in> set (tab_history s). e = PNone \<or> has_query_string (heap s) e) \<and>
      distinct (requests_of (heap s) (tab_history s))"
  proof
    assume "\<exists>r s'. history s = Inr (r, s')"
    then obtain h where "strip_entries (heap s) (tab_history s) = Inr h"
      by (auto simp add: history_def Let_def split: sum.splits)
    then show "(\<forall>e \<in> set (tab_history s). e = PNone \<or> has_query_string (heap s) e) \<and>
      distinct (requests_of (heap s) (tab_history s))"
      by (auto simp add: strip_entries_iff)
  next
    assume "(\<forall>e \<in> set (tab_history s). e = PNone \<or> has_query_string (heap s) e) \<and>
      distinct (requests_of (heap s) (tab_history s))"
    then have "strip_entries (heap s) (tab_history s) =
                 Inr (snd (spec_history_snapshot (heap s) (tab_history s)))"
      by (auto simp add: strip_entries_iff spec_history_snapshot_def)
    then show "\<exists>r s'. history s = Inr (r, s')" by (simp add: history_def Let_def)
  qed
  have c: "tab_history (state_of (on_url_changed ev url None s)) = tab_history s"
    "heap (state_of (on_url_changed ev url None s)) = heap s"
    by (simp_all add: on_url_changed_def)
  have e: "tab_history (state_of (on_url_changed ev url (Some d) s)) =
     tab_history s @ [fst (without_private ev (heap s) d)]"
    by (simp add: on_url_changed_def)
  from a b c e show ?thesis by blast
qed

theorem history_snapshot_without_query_string_witness:
  "history ((init_tab 0 ''7'')
       \<lparr>tab_history := [PRef 1, PNone],
        heap := (\<lambda>a. PDict [])
          (1 := PDict [(''request'', PRef 2)],
           2 := PDict [(''url'', PStr ''http://a/''), (''queryString'', PStr ''q=1'')])\<rparr>) =
     Inr (([PRef 1, PNone],
           (\<lambda>a. PDict [])
             (1 := PDict [(''request'', PRef 2)],
              2 := PDict [(''url'', PStr ''http://a/'')])),
          (init_tab 0 ''7'')
       \<lparr>tab_history := [PRef 1, PNone],
        heap := (\<lambda>a. PDict [])
          (1 := PDict [(''request'', PRef 2)],
           2 := PDict [(''url'', PStr ''http://a/''), (''queryString'', PStr ''q=1'')])\<rparr>) \<and>
   \<not> has_query_string
       ((\<lambda>a. PDict [])
          (1 := PDict [(''request'', PRef 2)],
           2 := PDict [(''url'', PStr ''http://a/'')]))
       (PRef 1) \<and>
   has_query_string
       ((\<lambda>a. PDict [])
          (1 := PDict [(''request'', PRef 2)],
           2 := PDict [(''url'', PStr ''http://a/''), (''queryString'', PStr ''q=1'')]))
       (PRef 1)"
proof -
  let ?h0 = "(\<lambda>a. PDict [])
          (1 := PDict [(''request'', PRef 2)],
           2 := PDict [(''url'', PStr ''http://a/''), (''queryString'', PStr ''q=1'')])"
  let ?h1 = "(\<lambda>a. PDict [])
          (1 := PDict [(''request'', PRef 2)],
           2 := PDict [(''url'', PStr ''http://a/'')])"
  let ?s = "(init_tab 0 ''7'')\<lparr>tab_history := [PRef 1, PNone], heap := ?h0\<rparr>"
  have a: "history ?s = Inr (([PRef 1, PNone], ?h1), ?s)"
    by (simp add: history_def logger_log_def init_tab_def del_query_string_def dict_pop_def)
  from a history_snapshot_without_query_string [of ?s "[PRef 1, PNone]" ?h1 ?s]
  have "\<forall>e \<in> set [PRef 1, PNone]. \<not> has_query_string ?h1 e"
    and "\<forall>e \<in> set (tab_history ?s). e \<noteq> PNone \<longrightarrow> has_query_string (heap ?s) e"
    by blast+
  then have "\<not> has_query_string ?h1 (PRef 1)" and "has_query_string ?h0 (PRef 1)"
    by simp_all
  with a show ?thesis by blast
qed

subsection \<open>Cancellation on a URL change\<close>

lemma cancel_timer_same [simp]:
  "verbosity (state_of (cancel_timer t p s)) = verbosity s"
  "uid (state_of (cancel_timer t p s)) = uid s"
  by (simp_all add: cancel_timer_def timer_stop_def Let_def split: onredirect.splits)






lemma swept_all: "\<not> list_ex (\<lambda>kv. policy_raises (snd kv)) items \<Longrightarrow> swept items = items"
  by (induction items rule: swept.induct) auto








lemma quiet_about_refl [simp]: "quiet_about t s s"
  by (simp add: quiet_about_def new_effects_def)


lemma quiet_logger_log [simp]: "quiet_about t s (logger_log m l s)"
  by (cases l) (simp_all add: quiet_about_def new_effects_def logger_log_def)

















lemma distinct_dict_pop: "distinct (map fst d) \<Longrightarrow> distinct (map fst (dict_pop k d))"
  by (simp add: dict_pop_def distinct_map_filter)

lemma distinct_dict_set: "distinct (map fst d) \<Longrightarrow> distinct (map fst (dict_set k v d))"
proof (cases "k \<in> dict_keys d")
  case True
  assume "distinct (map fst d)"
  then have "distinct (map fst (map (\<lambda>kv. if fst kv = k then (k, v) else kv) d))"
    by (simp only: dict_set_map_fst)
  with True show ?thesis by (simp only: dict_set_def if_True)
next
  case False
  assume "distinct (map fst d)"
  with False show ?thesis by (simp add: dict_set_def dict_keys_def)
qed

lemma cancel_all_distinct:
  "distinct (map fst (cancel_on_redirect_timers s)) \<Longrightarrow>
     distinct (map fst (cancel_on_redirect_timers (state_of (cancel_all items s))))"
proof (induction items s rule: cancel_all.induct)
  case (1 s)
  then show ?case by simp
next
  case (2 t p items s)
  from "2.prems" have c: "distinct (map fst (cancel_on_redirect_timers (state_of (cancel_timer t p s))))"
    by (simp add: distinct_dict_pop)
  show ?case
  proof (cases "cancel_timer t p s")
    case (Inl e)
    with c show ?thesis by (cases e) simp
  next
    case (Inr s1)
    with c have "distinct (map fst (cancel_on_redirect_timers s1))" by simp
    from "2.IH" [OF Inr this] Inr show ?thesis by simp
  qed
qed

lemma on_url_changed_distinct:
  "distinct (map fst (cancel_on_redirect_timers s)) \<Longrightarrow>
     distinct (map fst (cancel_on_redirect_timers (state_of (on_url_changed ev url c s))))"
proof (cases c)
  case None
  assume "distinct (map fst (cancel_on_redirect_timers s))"
  from cancel_all_distinct [OF this] None show ?thesis by (simp add: on_url_changed_def)
next
  case (Some d)
  let ?s1 = "s\<lparr>tab_history := tab_history s @ [fst (without_private ev (heap s) d)],
               heap := snd (without_private ev (heap s) d)\<rparr>"
  assume "distinct (map fst (cancel_on_redirect_timers s))"
  then have "distinct (map fst (cancel_on_redirect_timers ?s1))" by simp
  from cancel_all_distinct [OF this] Some show ?thesis by (simp add: on_url_changed_def)
qed

lemma tab_wf_step: "tab_wf s \<Longrightarrow> tab_wf (step ev e s)"
proof -
  assume wf: "tab_wf s"
  then have inv: "tab_inv s" and d: "distinct (map fst (cancel_on_redirect_timers s))"
    and lt: "active_timers s \<subseteq> {x. x < next_timer s}"
    by (simp_all add: tab_wf_def)
  have i: "tab_inv (step ev e s)" using inv by (rule tab_inv_step)
  have "distinct (map fst (cancel_on_redirect_timers (step ev e s))) \<and>
        active_timers (step ev e s) \<subseteq> {x. x < next_timer (step ev e s)}"
  proof (cases e)
    case (EvGo url cb eb bu m b)
    then show ?thesis using d lt by simp
  next
    case EvClose
    then show ?thesis using d lt by simp
  next
    case (EvWait ms cb p)
    then show ?thesis using d lt by (auto simp add: distinct_dict_set)
  next
    case (EvReturnResult r)
    then show ?thesis using d lt by simp
  next
    case (EvReturnError r)
    then show ?thesis using d lt by simp
  next
    case EvHistory
    then show ?thesis using d lt by (auto split: sum.splits dest!: history_frame)
  next
    case (EvSetDefaultHeaders hs)
    then show ?thesis using d lt by (simp add: set_default_headers_def)
  next
    case (EvPageError i)
    then show ?thesis using d lt by simp
  next
    case (EvLoadFinished ok)
    then show ?thesis using d lt by simp
  next
    case (EvUrlChanged url c)
    obtain P where "active_timers (state_of (on_url_changed ev url c s)) = active_timers s - P"
      using on_url_changed_registries [of ev url c s] by blast
    with EvUrlChanged d lt show ?thesis by (auto simp add: on_url_changed_distinct)
  next
    case (EvTimeout t')
    then show ?thesis using d lt by (auto simp add: distinct_dict_pop)
  next
    case (EvReplyFinished i rep)
    then show ?thesis using d lt by (auto split: prod.splits)
  next
    case (EvStore a obj)
    then show ?thesis using d lt by simp
  qed
  with i show ?thesis by (simp add: tab_wf_def)
qed

lemma tab_wf_reachable: "tab_wf (run ev es (init_tab v u))"
proof -
  have "\<And>s. tab_wf s \<Longrightarrow> tab_wf (run ev es s)"
    by (induction es) (simp_all add: tab_wf_step)
  moreover have "tab_wf (init_tab v u)"
    by (simp add: tab_wf_def tab_inv_def init_tab_def)
  ultimately show ?thesis by blast
qed

text \<open>
  The hypothesis \<open>tab_wf\<close> of the next theorem holds in every state that a new tab
  can reach (\<open>tab_wf_reachable\<close>): the keys of the dictionary are distinct and
  active, and every active timer was created before the next one.
\<close>




end
